theory Spec2Isabelle
  imports Main
begin

section \<open>koa-better-router: route registration and dispatch\<close>

text \<open>
  A shallow embedding of \<^verbatim>\<open>src/index.js\<close>. JavaScript values that reach the router's
  registration interface are a datatype, a thrown \<^verbatim>\<open>TypeError\<close> is the left summand of
  a result, and the objects the code mutates (the router, its route records, the request
  context, the shared prototype) are records that every operation returns updated.
  Strings are ASCII strings.
\<close>

subsection \<open>JavaScript values\<close>

text \<open>
  The values an argument of \<^verbatim>\<open>createRoute\<close> or the \<^verbatim>\<open>legacy\<close> option can hold.
  \<open>'h\<close> is the type of function values (handlers); \<open>JObj\<close> is any other object.
  A missing argument is \<open>JUndefined\<close>.
\<close>

datatype 'h jsval =
    JUndefined
  | JNull
  | JBool bool
  | JNum int
  | JStr string
  | JFun 'h
  | JArr "'h jsval list"
  | JObj

text \<open>JavaScript truthiness (\<^verbatim>\<open>!v\<close>, \<^verbatim>\<open>a || b\<close>, \<^verbatim>\<open>c ? x : y\<close>).\<close>

fun truthy :: "'h jsval \<Rightarrow> bool" where
  "truthy JUndefined = False"
| "truthy JNull = False"
| "truthy (JBool b) = b"
| "truthy (JNum n) = (n \<noteq> 0)"
| "truthy (JStr s) = (s \<noteq> [])"
| "truthy (JFun f) = True"
| "truthy (JArr xs) = True"
| "truthy JObj = True"

datatype error = TypeError string

text \<open>
  The outcome of a promise: fulfilled, rejected with a reason, or never settled.
\<close>

datatype 'e outcome = Fulfilled | Rejected 'e | Pending

subsection \<open>String operations\<close>

text \<open>\<^verbatim>\<open>String.prototype.toUpperCase\<close> on ASCII letters.\<close>

definition upper_char :: "char \<Rightarrow> char" where
  "upper_char c =
     (case map_of (zip ''abcdefghijklmnopqrstuvwxyz'' ''ABCDEFGHIJKLMNOPQRSTUVWXYZ'') c of
        None \<Rightarrow> c
      | Some C \<Rightarrow> C)"

definition toUpperCase :: "string \<Rightarrow> string" where
  "toUpperCase s = map upper_char s"

text \<open>
  \<^verbatim>\<open>s.split(sep)\<close> for a one-character separator: every occurrence of the separator
  ends a part, and the empty string splits into one empty part.
\<close>

fun split :: "char \<Rightarrow> string \<Rightarrow> string list" where
  "split sep [] = [[]]"
| "split sep (c # cs) =
     (if c = sep then [] # split sep cs
      else (case split sep cs of [] \<Rightarrow> [[c]] | p # ps \<Rightarrow> (c # p) # ps))"

text \<open>Reading an array of strings by index: out of range gives \<^verbatim>\<open>undefined\<close>.\<close>

definition index :: "string list \<Rightarrow> nat \<Rightarrow> 'h jsval" where
  "index parts i = (if i < length parts then JStr (parts ! i) else JUndefined)"

subsection \<open>Data model\<close>

type_synonym params = "string \<rightharpoonup> string"

text \<open>
  A compiled matcher, \<^verbatim>\<open>match(path, params)\<close>: the extracted parameters, or \<open>None\<close>
  for \<^verbatim>\<open>false\<close>. The second argument is \<^verbatim>\<open>ctx.params\<close>, which may be undefined.
\<close>

type_synonym matcher = "string \<Rightarrow> params option \<Rightarrow> params option"

text \<open>
  The router's configuration object \<^verbatim>\<open>this.options\<close>. The constructor merges over
  \<^verbatim>\<open>{ prefix: '/' }\<close>, so \<open>prefix\<close> is always there; \<open>legacy\<close> is \<open>JUndefined\<close>
  when the key is absent.
\<close>

record 'h options =
  prefix :: string
  legacy :: "'h jsval"

text \<open>An options object as a caller passes it: each key present or not.\<close>

record 'h opts =
  o_prefix :: "string option"
  o_legacy :: "'h jsval option"

text \<open>The route object that \<^verbatim>\<open>createRoute\<close> returns; \<open>r_params\<close> is set by a dispatch.\<close>

record 'h route =
  r_prefix :: string
  r_path :: string
  r_pathname :: string
  r_route :: string
  r_match :: matcher
  r_method :: string
  r_middlewares :: "'h jsval list"
  r_params :: "params option"

text \<open>
  A router instance: \<^verbatim>\<open>this.options\<close>, \<^verbatim>\<open>this.route\<close> (the pattern compiler that
  \<^verbatim>\<open>utils.pathMatch\<close> returned at construction) and \<^verbatim>\<open>this.routes\<close>.
\<close>

record 'h router =
  options :: "'h options"
  route :: "string \<Rightarrow> matcher"
  routes :: "'h route list"

text \<open>
  The request context: \<^verbatim>\<open>ctx.method\<close>, \<^verbatim>\<open>ctx.path\<close>, \<^verbatim>\<open>ctx.params\<close> and
  \<^verbatim>\<open>ctx.route\<close>. A route object is identified by its position in \<^verbatim>\<open>this.routes\<close>
  (objects are appended once and never removed), so \<open>ctx_route\<close> holds that position;
  whatever else the context carries is the record's extension.
\<close>

record request_context =
  ctx_method :: string
  ctx_path :: string
  ctx_params :: "params option"
  ctx_route :: "nat option"

text \<open>
  The module \<^verbatim>\<open>./utils\<close> is not part of the sources at hand: its members are parameters
  of the model. \<open>pathMatch\<close> takes the router's options and returns the pattern compiler,
  \<open>compose\<close> turns a handler sequence into one callable that runs on the context and
  settles, \<open>methods\<close> is the list of HTTP verbs.
\<close>

record ('h, 'x, 'e) utils =
  arrayify :: "'h jsval \<Rightarrow> 'h jsval list"
  createPrefix :: "string \<Rightarrow> string \<Rightarrow> string"
  pathMatch :: "'h options \<Rightarrow> string \<Rightarrow> matcher"
  isGenerator :: "'h jsval \<Rightarrow> bool"
  convert :: "'h jsval \<Rightarrow> 'h jsval"
  compose :: "'h jsval list \<Rightarrow> 'x request_context_scheme \<Rightarrow> 'e outcome \<times> 'x request_context_scheme"
  methods :: "string list"

subsection \<open>Construction and registration\<close>

text \<open>
  Modelled from the spec: \<^verbatim>\<open>utils.extend\<close> is missing; the spec's section 3 has
  configuration merged shallowly, the right-hand side winning per key. \<open>extend_opts\<close>
  merges two objects that may lack keys, \<open>extend_options\<close> merges over the router's options.
\<close>

definition extend_opts :: "'h opts \<Rightarrow> 'h opts \<Rightarrow> 'h opts" where
  "extend_opts base over =
     \<lparr> o_prefix = (case o_prefix over of None \<Rightarrow> o_prefix base | Some p \<Rightarrow> Some p),
       o_legacy = (case o_legacy over of None \<Rightarrow> o_legacy base | Some l \<Rightarrow> Some l) \<rparr>"

text \<open>
  Modelled from the spec: the same shallow merge of the missing \<^verbatim>\<open>utils.extend\<close>, over
  an object that has both keys.
\<close>

definition extend_options :: "'h options \<Rightarrow> 'h opts \<Rightarrow> 'h options" where
  "extend_options base over =
     \<lparr> prefix = (case o_prefix over of None \<Rightarrow> prefix base | Some p \<Rightarrow> p),
       legacy = (case o_legacy over of None \<Rightarrow> legacy base | Some l \<Rightarrow> l) \<rparr>"

text \<open>The constructor; \<open>None\<close> is a call without options.\<close>

definition KoaBetterRouter :: "('h, 'x, 'e) utils \<Rightarrow> 'h opts option \<Rightarrow> 'h router" where
  "KoaBetterRouter u opts =
     (let options = (case opts of
                       None \<Rightarrow> \<lparr> prefix = ''/'', legacy = JUndefined \<rparr>
                     | Some ob \<Rightarrow> extend_options \<lparr> prefix = ''/'', legacy = JUndefined \<rparr> ob)
      in \<lparr> options = options, route = pathMatch u options, routes = [] \<rparr>)"

text \<open>
  \<^verbatim>\<open>createRoute(method, route, fns, ...args)\<close>: \<open>args\<close> are the arguments from the
  fourth on. The two \<^verbatim>\<open>throw\<close> statements are the two \<open>Inl\<close> results.
\<close>

definition createRoute ::
  "('h, 'x, 'e) utils \<Rightarrow> 'h router \<Rightarrow> 'h jsval \<Rightarrow> 'h jsval \<Rightarrow> 'h jsval \<Rightarrow> 'h jsval list
     \<Rightarrow> error + 'h route" where
  "createRoute u this method route_arg fns args =
     (let middlewares = arrayify u fns @ args in
      case method of
        JStr m \<Rightarrow>
          (let parts = split CHR '' '' m;
               method1 = toUpperCase
                 (case (index parts 0 :: 'h jsval) of
                    JStr p \<Rightarrow> if p = [] then ''get'' else p
                  | _ \<Rightarrow> ''get'');
               (middlewares1, route1) =
                 (case route_arg of
                    JFun f \<Rightarrow> ([route_arg] @ middlewares, index parts 1)
                  | _ \<Rightarrow> (middlewares, route_arg));
               (middlewares2, route2) =
                 (case route1 of
                    JArr xs \<Rightarrow> (xs @ middlewares1, index parts 1)
                  | _ \<Rightarrow> (middlewares1, route1))
           in case route2 of
                JStr rt \<Rightarrow>
                  (let prefixed = createPrefix u (prefix (options this)) rt
                   in Inr \<lparr> r_prefix = prefix (options this),
                            r_path = prefixed,
                            r_pathname = rt,
                            r_route = rt,
                            r_match = route this prefixed,
                            r_method = method1,
                            r_middlewares = middlewares2,
                            r_params = None \<rparr>)
              | _ \<Rightarrow> Inl (TypeError ''.createRoute: expect `route` be string, array or function''))
      | _ \<Rightarrow> Inl (TypeError ''.createRoute: expect `method` to be a string''))"

text \<open>\<^verbatim>\<open>addRoute\<close> forwards its arguments to \<^verbatim>\<open>createRoute\<close> and pushes the result.\<close>

definition addRoute ::
  "('h, 'x, 'e) utils \<Rightarrow> 'h router \<Rightarrow> 'h jsval \<Rightarrow> 'h jsval \<Rightarrow> 'h jsval \<Rightarrow> 'h jsval list
     \<Rightarrow> error + 'h router" where
  "addRoute u this method route_arg fns args =
     (case createRoute u this method route_arg fns args of
        Inl e \<Rightarrow> Inl e
      | Inr routeObject \<Rightarrow> Inr (this\<lparr> routes := routes this @ [routeObject] \<rparr>))"

subsection \<open>The dispatch entry point\<close>

text \<open>
  The argument of \<^verbatim>\<open>middleware(opts)\<close>: an options object, or any other value
  (\<open>Value JUndefined\<close> for a call without argument).
\<close>

datatype 'h middleware_arg = Object "'h opts" | Value "'h jsval"

text \<open>\<^verbatim>\<open>typeof v === 'object'\<close> and \<^verbatim>\<open>typeof v === 'boolean'\<close>.\<close>

fun typeof_object :: "'h jsval \<Rightarrow> bool" where
  "typeof_object JNull = True"
| "typeof_object (JArr xs) = True"
| "typeof_object JObj = True"
| "typeof_object v = False"

fun typeof_boolean :: "'h jsval \<Rightarrow> bool" where
  "typeof_boolean (JBool b) = True"
| "typeof_boolean v = False"

text \<open>
  Lines 300 to 305: the argument becomes an object whose \<^verbatim>\<open>legacy\<close> key is a boolean.
  A value of type object that is not an options object (\<^verbatim>\<open>null\<close>, an array) has
  neither key.
\<close>

definition normalize_opts :: "'h middleware_arg \<Rightarrow> 'h opts" where
  "normalize_opts arg =
     (let opts =
        (case arg of
           Object ob \<Rightarrow> extend_opts \<lparr> o_prefix = None, o_legacy = Some (JBool False) \<rparr> ob
         | Value v \<Rightarrow>
             if typeof_object v
             then extend_opts \<lparr> o_prefix = None, o_legacy = Some (JBool False) \<rparr>
                    \<lparr> o_prefix = None, o_legacy = None \<rparr>
             else \<lparr> o_prefix = None, o_legacy = Some v \<rparr>)
      in opts\<lparr> o_legacy :=
           Some (case o_legacy opts of
                   None \<Rightarrow> JBool False
                 | Some l \<Rightarrow> if typeof_boolean l then l else JBool False) \<rparr>)"

text \<open>
  What \<^verbatim>\<open>middleware\<close> returns: the arrow function, which closes over the merged
  \<^verbatim>\<open>options\<close> (and over \<^verbatim>\<open>this\<close>, passed to \<open>dispatch\<close> below), or a function
  wrapped by \<^verbatim>\<open>utils.convert.back\<close>.
\<close>

datatype 'h middleware_fn = Dispatcher "'h options" | ConvertBack "'h middleware_fn"

text \<open>
  \<^verbatim>\<open>middleware\<close> and \<^verbatim>\<open>legacyMiddleware\<close> call each other; both return the router
  with \<^verbatim>\<open>this.options\<close> replaced.
\<close>

function middleware :: "'h router \<Rightarrow> 'h middleware_arg \<Rightarrow> 'h router \<times> 'h middleware_fn"
  and legacyMiddleware :: "'h router \<Rightarrow> 'h router \<times> 'h middleware_fn" where
  "middleware this arg =
     (let opts = normalize_opts arg;
          options = extend_options (options this) opts;
          this1 = this\<lparr> options := options \<rparr>
      in if truthy (legacy options) then legacyMiddleware this1
         else (this1, Dispatcher options))"
| "legacyMiddleware this =
     (let (this1, fn) = middleware this (Value JUndefined) in (this1, ConvertBack fn))"
  by pat_completeness auto

termination
proof (relation "measure (\<lambda>x. case x of
          Inl (this, arg) \<Rightarrow>
            (case o_legacy (normalize_opts arg) of
               None \<Rightarrow> 0
             | Some l \<Rightarrow> if truthy l then 2 else 0)
        | Inr this \<Rightarrow> 1)")
qed (auto simp: normalize_opts_def extend_options_def extend_opts_def Let_def)

text \<open>
  The calls a dispatch makes on what it was handed, in order and with their arguments:
  \<^verbatim>\<open>utils.compose(route.middlewares)(ctx)\<close> for the route at a position, and
  \<^verbatim>\<open>next()\<close> with the context as it is at that moment.
\<close>

datatype ('h, 'x) call =
    CallCompose nat "'h jsval list" "'x request_context_scheme"
  | CallNext "'x request_context_scheme"

text \<open>
  What one call of the dispatcher leaves behind: \<^verbatim>\<open>this.routes\<close>, the context, the
  outcome of the returned promise, and the calls made.
\<close>

record ('h, 'x, 'e) dispatched =
  d_routes :: "'h route list"
  d_ctx :: "'x request_context_scheme"
  d_outcome :: "'e outcome"
  d_calls :: "('h, 'x) call list"

text \<open>
  The arrow function of lines 314 to 350, running over the routes from position \<open>i\<close> on.
  \<^verbatim>\<open>continue\<close> is the recursive call, the \<^verbatim>\<open>return\<close> inside the loop ends it.
  \<open>options'\<close> is the merged \<^verbatim>\<open>options\<close> object the function closes over, and
  \<open>next\<close> is the continuation: it runs on the context and settles.
  \<^verbatim>\<open>promise.then(() => next())\<close> calls \<open>next\<close> when the promise is fulfilled,
  passes a rejection on, and stays pending with a promise that never settles.
\<close>

fun dispatch_from ::
  "('h, 'x, 'e) utils \<Rightarrow> 'h router \<Rightarrow> 'h options \<Rightarrow> 'x request_context_scheme
     \<Rightarrow> ('x request_context_scheme \<Rightarrow> 'e outcome \<times> 'x request_context_scheme)
     \<Rightarrow> nat \<Rightarrow> 'h route list \<Rightarrow> ('h, 'x, 'e) dispatched" where
  "dispatch_from u this options' ctx next i [] =
     (let (out, ctx1) = next ctx
      in \<lparr> d_routes = [], d_ctx = ctx1, d_outcome = out, d_calls = [CallNext ctx] \<rparr>)"
| "dispatch_from u this options' ctx next i (r # rs) =
     (if ctx_method ctx \<noteq> r_method r then
        (let d = dispatch_from u this options' ctx next (Suc i) rs
         in d\<lparr> d_routes := r # d_routes d \<rparr>)
      else
        (let r1 =
           (if prefix options' \<noteq> r_prefix r then
              (let prefixed = createPrefix u (prefix options') (r_pathname r)
               in r\<lparr> r_prefix := prefix options',
                     r_path := prefixed,
                     r_match := route this prefixed \<rparr>)
            else r)
         in case r_match r1 (ctx_path ctx) (ctx_params ctx) of
              None \<Rightarrow>
                (let d = dispatch_from u this options' ctx next (Suc i) rs
                 in d\<lparr> d_routes := r1 # d_routes d \<rparr>)
            | Some match \<Rightarrow>
                (let r2 = r1\<lparr> r_params := Some match,
                              r_middlewares :=
                                map (\<lambda>fn. if isGenerator u fn then convert u fn else fn)
                                  (r_middlewares r1) \<rparr>;
                     ctx1 = ctx\<lparr> ctx_route := Some i, ctx_params := r_params r2 \<rparr>
                 in case compose u (r_middlewares r2) ctx1 of
                      (Fulfilled, ctx2) \<Rightarrow>
                        (let (out, ctx3) = next ctx2
                         in \<lparr> d_routes = r2 # rs, d_ctx = ctx3, d_outcome = out,
                              d_calls = [CallCompose i (r_middlewares r2) ctx1,
                                         CallNext ctx2] \<rparr>)
                    | (Rejected e, ctx2) \<Rightarrow>
                        \<lparr> d_routes = r2 # rs, d_ctx = ctx2, d_outcome = Rejected e,
                          d_calls = [CallCompose i (r_middlewares r2) ctx1] \<rparr>
                    | (Pending, ctx2) \<Rightarrow>
                        \<lparr> d_routes = r2 # rs, d_ctx = ctx2, d_outcome = Pending,
                          d_calls = [CallCompose i (r_middlewares r2) ctx1] \<rparr>)))"

definition dispatch ::
  "('h, 'x, 'e) utils \<Rightarrow> 'h router \<Rightarrow> 'h options \<Rightarrow> 'x request_context_scheme
     \<Rightarrow> ('x request_context_scheme \<Rightarrow> 'e outcome \<times> 'x request_context_scheme)
     \<Rightarrow> ('h, 'x, 'e) dispatched" where
  "dispatch u this options' ctx next = dispatch_from u this options' ctx next 0 (routes this)"

text \<open>
  Successive requests on one router: each is served by a dispatcher (given by the options
  it closes over) with its own context and continuation, and finds the routes as the
  request before left them.
\<close>

fun dispatches ::
  "('h, 'x, 'e) utils \<Rightarrow> 'h router
     \<Rightarrow> ('h options \<times> 'x request_context_scheme
          \<times> ('x request_context_scheme \<Rightarrow> 'e outcome \<times> 'x request_context_scheme)) list
     \<Rightarrow> 'h router" where
  "dispatches u this [] = this"
| "dispatches u this ((options', ctx, next) # reqs) =
     dispatches u (this\<lparr> routes := d_routes (dispatch u this options' ctx next) \<rparr>) reqs"

subsection \<open>Verb methods on the shared prototype\<close>

text \<open>
  \<^verbatim>\<open>loadMethods\<close> assigns to \<^verbatim>\<open>KoaBetterRouter.prototype\<close>, one object shared by all
  instances. The store holds that object's properties and the instances, an instance
  being referred to by its position. \<open>Builtin\<close> is one of the five methods that
  \<^verbatim>\<open>index.js\<close> defines, \<open>HttpVerbMethod METHOD\<close> is the function
  \<^verbatim>\<open>httpVerbMethod\<close> closing over \<^verbatim>\<open>METHOD\<close>.
\<close>

datatype method_fn = Builtin string | HttpVerbMethod string

text \<open>The prototype as \<^verbatim>\<open>index.js\<close> defines it, before any \<^verbatim>\<open>loadMethods\<close>.\<close>

definition KoaBetterRouter_prototype :: "string \<rightharpoonup> method_fn" where
  "KoaBetterRouter_prototype =
     [''loadMethods'' \<mapsto> Builtin ''loadMethods'',
      ''addRoute'' \<mapsto> Builtin ''addRoute'',
      ''createRoute'' \<mapsto> Builtin ''createRoute'',
      ''middleware'' \<mapsto> Builtin ''middleware'',
      ''legacyMiddleware'' \<mapsto> Builtin ''legacyMiddleware'']"

record 'h store =
  prototype :: "string \<rightharpoonup> method_fn"
  instances :: "'h router list"

text \<open>\<^verbatim>\<open>new KoaBetterRouter(options)\<close>: a fresh instance, and the reference to it.\<close>

definition new_KoaBetterRouter ::
  "('h, 'x, 'e) utils \<Rightarrow> 'h store \<Rightarrow> 'h opts option \<Rightarrow> 'h store \<times> nat" where
  "new_KoaBetterRouter u w opts =
     (w\<lparr> instances := instances w @ [KoaBetterRouter u opts] \<rparr>, length (instances w))"

text \<open>
  The callback of \<^verbatim>\<open>utils.methods.forEach\<close> (lines 93 to 100), as a function of the
  prototype's properties: the same function is stored under the upper-case name and
  under the name itself.
\<close>

definition install_verb :: "string \<Rightarrow> (string \<rightharpoonup> method_fn) \<Rightarrow> (string \<rightharpoonup> method_fn)" where
  "install_verb method proto =
     (let METHOD = toUpperCase method
      in proto(METHOD \<mapsto> HttpVerbMethod METHOD, method \<mapsto> HttpVerbMethod METHOD))"

definition loadMethods :: "('h, 'x, 'e) utils \<Rightarrow> 'h store \<Rightarrow> nat \<Rightarrow> 'h store \<times> nat" where
  "loadMethods u w this =
     (let proto1 = fold install_verb (methods u) (prototype w);
          proto2 = proto1(''del'' := proto1 ''delete'')
      in (w\<lparr> prototype := proto2 \<rparr>, this))"

text \<open>
  Reading \<^verbatim>\<open>router[name]\<close> as a method: the constructor gives every instance the own
  properties \<^verbatim>\<open>options\<close>, \<^verbatim>\<open>route\<close> and \<^verbatim>\<open>routes\<close>, which hide the prototype's
  and are not methods; any other name is looked up on the prototype.
\<close>

definition own_property :: "string \<Rightarrow> bool" where
  "own_property name = (name \<in> set [''options'', ''route'', ''routes''])"

definition get_method :: "'h store \<Rightarrow> nat \<Rightarrow> string \<Rightarrow> method_fn option" where
  "get_method w this name =
     (if this < length (instances w) \<and> \<not> own_property name then prototype w name else None)"

text \<open>Reading the argument list by position: a missing argument is \<^verbatim>\<open>undefined\<close>.\<close>

definition argument :: "'h jsval list \<Rightarrow> nat \<Rightarrow> 'h jsval" where
  "argument arguments i = (if i < length arguments then arguments ! i else JUndefined)"

text \<open>
  The installed function: \<^verbatim>\<open>this.addRoute.apply(this, [METHOD].concat(args))\<close>.
\<close>

definition httpVerbMethod ::
  "('h, 'x, 'e) utils \<Rightarrow> 'h router \<Rightarrow> string \<Rightarrow> 'h jsval list \<Rightarrow> error + 'h router" where
  "httpVerbMethod u this METHOD args =
     addRoute u this (JStr METHOD) (argument args 0) (argument args 1) (drop 2 args)"

subsection \<open>A reference instance of the missing utilities\<close>

text \<open>
  Modelled from the spec: \<^verbatim>\<open>utils.arrayify\<close> is missing; the spec's section 4.1 has a
  single handler, a sequence of handlers or nothing flattened into one ordered list.
\<close>

fun arrayify_ref :: "'h jsval \<Rightarrow> 'h jsval list" where
  "arrayify_ref (JArr xs) = xs"
| "arrayify_ref v = (if truthy v then [v] else [])"

text \<open>
  Modelled from the spec: \<^verbatim>\<open>utils.createPrefix\<close> is missing; the spec's section 3 has
  the full path as the prefix joined with the pattern by single slashes, with no duplicate
  slashes and with a trailing slash dropped unless the pattern is exactly \<^verbatim>\<open>/\<close>, and
  section 8 has \<^verbatim>\<open>/api\<close> with \<^verbatim>\<open>/users\<close> give \<^verbatim>\<open>/api/users\<close> and \<^verbatim>\<open>/\<close> with
  \<^verbatim>\<open>/users\<close> give \<^verbatim>\<open>/users\<close>. \<open>collapse_slashes\<close> turns every run of slashes into
  one slash, \<open>drop_trailing_slash\<close> removes a final slash that is not the whole string.
\<close>

fun collapse_slashes :: "string \<Rightarrow> string" where
  "collapse_slashes (c # d # cs) =
     (if c = CHR ''/'' \<and> d = CHR ''/'' then collapse_slashes (d # cs)
      else c # collapse_slashes (d # cs))"
| "collapse_slashes cs = cs"

definition drop_trailing_slash :: "string \<Rightarrow> string" where
  "drop_trailing_slash s =
     (if 1 < length s \<and> last s = CHR ''/'' then butlast s else s)"

text \<open>
  Modelled from the spec: the missing \<^verbatim>\<open>utils.createPrefix\<close>, as the single-slash join
  of section 3.
\<close>

definition createPrefix_ref :: "string \<Rightarrow> string \<Rightarrow> string" where
  "createPrefix_ref pre pathname =
     (let joined = collapse_slashes (''/'' @ pre @ ''/'' @ pathname)
      in if pathname = ''/'' then joined else drop_trailing_slash joined)"

text \<open>
  Modelled from the spec: the path-pattern compiler behind \<^verbatim>\<open>utils.pathMatch\<close> is an
  external capability (section 4.4); this one knows patterns without parameters only, which
  match the identical path and extract nothing.
\<close>

definition pathMatch_ref :: "'h options \<Rightarrow> string \<Rightarrow> matcher" where
  "pathMatch_ref opts pattern path ps =
     (if path = pattern then Some (case ps of None \<Rightarrow> Map.empty | Some m \<Rightarrow> m) else None)"

text \<open>
  Modelled from the spec: handler functions and their composition (section 4.5) are
  external. A handler is \<open>Plain\<close> (modern, passes control on), \<open>Gen\<close> (a generator
  function, converted to \<open>Plain\<close>) or \<open>Failing\<close> (modern, throws its number); the
  composed chain runs them in order and fails at the first that fails.
\<close>

datatype fn = Plain nat | Gen nat | Failing nat

fun isGenerator_ref :: "fn jsval \<Rightarrow> bool" where
  "isGenerator_ref (JFun (Gen n)) = True"
| "isGenerator_ref v = False"

text \<open>
  Modelled from the spec: the conversion of a legacy handler to the modern convention
  (section 4.2, step 4), which leaves a modern handler as it is.
\<close>

fun convert_ref :: "fn jsval \<Rightarrow> fn jsval" where
  "convert_ref (JFun (Gen n)) = JFun (Plain n)"
| "convert_ref v = v"

text \<open>
  Modelled from the spec: the composer of section 4.5, running the handlers in order and
  failing when one fails.
\<close>

fun compose_ref :: "fn jsval list \<Rightarrow> 'x request_context_scheme \<Rightarrow> nat outcome \<times> 'x request_context_scheme" where
  "compose_ref [] ctx = (Fulfilled, ctx)"
| "compose_ref (JFun (Failing n) # fs) ctx = (Rejected n, ctx)"
| "compose_ref (f # fs) ctx = compose_ref fs ctx"

text \<open>
  Modelled from the spec: the missing module \<^verbatim>\<open>./utils\<close>, made of the members above and
  a list of HTTP verbs for \<^verbatim>\<open>utils.methods\<close> (section 4.1 names the verb set only).
\<close>

definition utils_ref :: "(fn, unit, nat) utils" where
  "utils_ref =
     \<lparr> arrayify = arrayify_ref,
       createPrefix = createPrefix_ref,
       pathMatch = pathMatch_ref,
       isGenerator = isGenerator_ref,
       convert = convert_ref,
       compose = compose_ref,
       methods = [''get'', ''post'', ''put'', ''head'', ''delete'', ''options'', ''patch''] \<rparr>"

subsection \<open>Vocabulary of the dispatch properties\<close>

text \<open>
  A route as the loop holds it after lines 319 to 324, for a dispatcher whose options have
  the prefix \<open>p\<close>: unchanged when it is stored under \<open>p\<close>, and otherwise with prefix,
  full path and matcher computed from \<open>p\<close> and the route's pattern.
\<close>

definition under_prefix ::
  "('h, 'x, 'e) utils \<Rightarrow> 'h router \<Rightarrow> string \<Rightarrow> 'h route \<Rightarrow> 'h route" where
  "under_prefix u this p r =
     (if p = r_prefix r then r
      else r\<lparr> r_prefix := p,
              r_path := createPrefix u p (r_pathname r),
              r_match := route this (createPrefix u p (r_pathname r)) \<rparr>)"

text \<open>The request matches the route: the methods are equal and the matcher accepts the path.\<close>

definition accepts ::
  "('h, 'x, 'e) utils \<Rightarrow> 'h router \<Rightarrow> 'h options \<Rightarrow> 'x request_context_scheme \<Rightarrow> 'h route
     \<Rightarrow> bool" where
  "accepts u this options' ctx r \<longleftrightarrow>
     ctx_method ctx = r_method r
     \<and> r_match (under_prefix u this (prefix options') r) (ctx_path ctx) (ctx_params ctx) \<noteq> None"

text \<open>The matched route after lines 334 to 337.\<close>

definition matched :: "('h, 'x, 'e) utils \<Rightarrow> 'h route \<Rightarrow> params \<Rightarrow> 'h route" where
  "matched u r1 m =
     r1\<lparr> r_params := Some m,
         r_middlewares :=
           map (\<lambda>fn. if isGenerator u fn then convert u fn else fn) (r_middlewares r1) \<rparr>"

subsection \<open>An example router\<close>

text \<open>
  The reference instance's router after
  \<^verbatim>\<open>addRoute('GET /users', h7)\<close>, \<^verbatim>\<open>addRoute('GET', '/users', g8)\<close>,
  \<^verbatim>\<open>addRoute('POST /users', f9)\<close> and \<^verbatim>\<open>addRoute('get /items', [h10])\<close>, built under the
  default prefix; \<open>g8\<close> is a generator function and \<open>f9\<close> fails.
\<close>

definition example_options :: "fn options" where
  "example_options = \<lparr> prefix = ''/'', legacy = JUndefined \<rparr>"

definition example_route :: "string \<Rightarrow> string \<Rightarrow> fn jsval list \<Rightarrow> fn route" where
  "example_route m pattern hs =
     \<lparr> r_prefix = ''/'', r_path = pattern, r_pathname = pattern, r_route = pattern,
       r_match = pathMatch_ref example_options pattern,
       r_method = m, r_middlewares = hs, r_params = None \<rparr>"

definition example_router :: "fn router" where
  "example_router =
     \<lparr> options = example_options,
       route = pathMatch_ref example_options,
       routes = [example_route ''GET'' ''/users'' [JFun (Plain 7)],
                 example_route ''GET'' ''/users'' [JFun (Gen 8)],
                 example_route ''POST'' ''/users'' [JFun (Failing 9)],
                 example_route ''GET'' ''/items'' [JFun (Plain 10)]] \<rparr>"

definition example_ctx :: "string \<Rightarrow> string \<Rightarrow> request_context" where
  "example_ctx m path =
     \<lparr> ctx_method = m, ctx_path = path, ctx_params = None, ctx_route = None \<rparr>"

text \<open>A continuation that does nothing and succeeds.\<close>

definition example_next :: "request_context \<Rightarrow> nat outcome \<times> request_context" where
  "example_next ctx = (Fulfilled, ctx)"

definition example_api :: "fn options" where
  "example_api = \<lparr> prefix = ''/api'', legacy = JBool False \<rparr>"

text \<open>A store with two instances and the prototype as defined.\<close>

definition example_store :: "fn store" where
  "example_store =
     \<lparr> prototype = KoaBetterRouter_prototype,
       instances = [example_router, KoaBetterRouter utils_ref None] \<rparr>"

section \<open>Registration\<close>

lemma split_nonempty: "split sep s \<noteq> []"
  by (induction s) (auto split: list.splits)

lemma length_split: "length (split sep s) = Suc (length (filter (\<lambda>c. c = sep) s))"
  by (induction s) (auto split: list.splits simp: split_nonempty)

lemma split_has_second: "1 < length (split sep s) \<longleftrightarrow> sep \<in> set s"
  by (simp add: length_split filter_empty_conv)

lemma index_1_undefined:
  "sep \<notin> set s \<Longrightarrow> (index (split sep s) (Suc 0) :: 'h jsval) = JUndefined"
  using split_has_second [of sep s] by (auto simp: index_def)

lemma index_1_string:
  "sep \<in> set s \<Longrightarrow> (index (split sep s) (Suc 0) :: 'h jsval) = JStr (split sep s ! 1)"
  using split_has_second [of sep s] by (auto simp: index_def)

text \<open>
  C4. With a router and two handler functions \<open>h1\<close>, \<open>h2\<close>, the calls
  \<^verbatim>\<open>createRoute('GET', '/x', h1, h2)\<close>, \<^verbatim>\<open>createRoute('GET /x', [h1, h2])\<close> and
  \<^verbatim>\<open>createRoute('GET /x', h1, h2)\<close> return the same route: method \<^verbatim>\<open>GET\<close>, pattern
  \<^verbatim>\<open>/x\<close>, the full path of the router's prefix with \<^verbatim>\<open>/x\<close>, and the handlers
  \<open>h1\<close>, \<open>h2\<close> in that order. What is asked of the missing \<^verbatim>\<open>utils.arrayify\<close> is
  that it turns \<^verbatim>\<open>undefined\<close> into the empty list and one function into the list
  of that function.
\<close>

theorem createRoute_argument_shapes:
  assumes "arrayify u JUndefined = []"
    and "arrayify u (JFun h1) = [JFun h1]"
    and "arrayify u (JFun h2) = [JFun h2]"
  shows "createRoute u this (JStr ''GET'') (JStr ''/x'') (JFun h1) [JFun h2] =
           Inr \<lparr> r_prefix = prefix (options this),
                 r_path = createPrefix u (prefix (options this)) ''/x'',
                 r_pathname = ''/x'',
                 r_route = ''/x'',
                 r_match = route this (createPrefix u (prefix (options this)) ''/x''),
                 r_method = ''GET'',
                 r_middlewares = [JFun h1, JFun h2],
                 r_params = None \<rparr>
         \<and> createRoute u this (JStr ''GET /x'') (JArr [JFun h1, JFun h2]) JUndefined [] =
             createRoute u this (JStr ''GET'') (JStr ''/x'') (JFun h1) [JFun h2]
         \<and> createRoute u this (JStr ''GET /x'') (JFun h1) (JFun h2) [] =
             createRoute u this (JStr ''GET'') (JStr ''/x'') (JFun h1) [JFun h2]"
  using assms
  by (simp add: createRoute_def index_def toUpperCase_def upper_char_def Let_def)

theorem createRoute_argument_shapes_witness:
  "arrayify utils_ref JUndefined = []
   \<and> arrayify utils_ref (JFun (Plain 7)) = [JFun (Plain 7)]
   \<and> arrayify utils_ref (JFun (Gen 8)) = [JFun (Gen 8)]
   \<and> map_sum id r_middlewares
         (createRoute utils_ref
            (KoaBetterRouter utils_ref (Some \<lparr> o_prefix = Some ''/api'', o_legacy = None \<rparr>))
            (JStr ''GET /x'') (JArr [JFun (Plain 7), JFun (Gen 8)]) JUndefined []) =
       Inr [JFun (Plain 7), JFun (Gen 8)]
   \<and> map_sum id r_path
         (createRoute utils_ref
            (KoaBetterRouter utils_ref (Some \<lparr> o_prefix = Some ''/api'', o_legacy = None \<rparr>))
            (JStr ''GET /x'') (JFun (Plain 7)) (JFun (Gen 8)) []) =
       Inr ''/api/x''"
proof -
  have a: "arrayify utils_ref JUndefined = []"
    and b: "arrayify utils_ref (JFun (Plain 7)) = [JFun (Plain 7)]"
    and c: "arrayify utils_ref (JFun (Gen 8)) = [JFun (Gen 8)]"
    by (simp_all add: utils_ref_def)
  have p: "createPrefix utils_ref ''/api'' ''/x'' = ''/api/x''"
    by (simp add: utils_ref_def createPrefix_ref_def drop_trailing_slash_def)
  show ?thesis
    using createRoute_argument_shapes [OF a b c,
        of "KoaBetterRouter utils_ref (Some \<lparr> o_prefix = Some ''/api'', o_legacy = None \<rparr>)"]
      a b c p
    by (simp add: KoaBetterRouter_def extend_options_def Let_def)
qed

text \<open>
  C5. \<^verbatim>\<open>createRoute\<close> throws exactly when the method argument is not a string, or the
  route argument is neither a string nor a function or array that comes with a method
  string holding a space (whose second part then is the route); \<^verbatim>\<open>addRoute\<close> throws in
  the same cases and then adds nothing. \<^verbatim>\<open>createRoute(123, '/x')\<close> and
  \<^verbatim>\<open>createRoute('GET', 123)\<close> throw.
\<close>

theorem createRoute_throws_iff:
  "(isl (createRoute u this method route_arg fns args) \<longleftrightarrow>
      (case method of
         JStr m \<Rightarrow>
           (case route_arg of
              JStr rt \<Rightarrow> False
            | JFun f \<Rightarrow> CHR '' '' \<notin> set m
            | JArr xs \<Rightarrow> CHR '' '' \<notin> set m
            | _ \<Rightarrow> True)
       | _ \<Rightarrow> True))
   \<and> isl (addRoute u this method route_arg fns args) =
       isl (createRoute u this method route_arg fns args)
   \<and> createRoute u this (JNum 123) (JStr ''/x'') fns args =
       Inl (TypeError ''.createRoute: expect `method` to be a string'')
   \<and> createRoute u this (JStr ''GET'') (JNum 123) fns args =
       Inl (TypeError ''.createRoute: expect `route` be string, array or function'')"
proof -
  have "isl (createRoute u this method route_arg fns args) \<longleftrightarrow>
      (case method of
         JStr m \<Rightarrow>
           (case route_arg of
              JStr rt \<Rightarrow> False
            | JFun f \<Rightarrow> CHR '' '' \<notin> set m
            | JArr xs \<Rightarrow> CHR '' '' \<notin> set m
            | _ \<Rightarrow> True)
       | _ \<Rightarrow> True)"
  proof (cases "method")
    case (JStr m)
    show ?thesis
    proof (cases "CHR '' '' \<in> set m")
      case True
      with JStr show ?thesis
        by (cases route_arg) (simp_all add: createRoute_def Let_def index_1_string)
    next
      case False
      with JStr show ?thesis
        by (cases route_arg) (simp_all add: createRoute_def Let_def index_1_undefined)
    qed
  qed (simp_all add: createRoute_def)
  moreover have "isl (addRoute u this method route_arg fns args) =
       isl (createRoute u this method route_arg fns args)"
    by (simp add: addRoute_def split: sum.splits)
  moreover have "createRoute u this (JNum 123) (JStr ''/x'') fns args =
       Inl (TypeError ''.createRoute: expect `method` to be a string'')"
    by (simp add: createRoute_def)
  moreover have "createRoute u this (JStr ''GET'') (JNum 123) fns args =
       Inl (TypeError ''.createRoute: expect `route` be string, array or function'')"
    by (simp add: createRoute_def Let_def)
  ultimately show ?thesis by simp
qed

text \<open>
  C3, as the code has it. \<^verbatim>\<open>createRoute\<close> does not look at the number of handlers: the
  handler sequence of the route it returns is the handlers in the route argument (the
  function, or the elements of the array), then \<^verbatim>\<open>utils.arrayify(fns)\<close>, then the
  remaining arguments. It is non-empty exactly when one of the three is, and
  \<^verbatim>\<open>addRoute\<close> appends the route with that sequence.
\<close>

theorem createRoute_middlewares:
  assumes "createRoute u this method route_arg fns args = Inr R"
  shows "r_middlewares R =
           (case route_arg of JFun f \<Rightarrow> [route_arg] | JArr xs \<Rightarrow> xs | _ \<Rightarrow> [])
             @ arrayify u fns @ args
         \<and> addRoute u this method route_arg fns args = Inr (this\<lparr> routes := routes this @ [R] \<rparr>)"
proof (cases "method")
  case (JStr m)
  show ?thesis
  proof (cases "CHR '' '' \<in> set m")
    case True
    with JStr assms show ?thesis
      by (cases route_arg) (auto simp: addRoute_def createRoute_def Let_def index_1_string)
  next
    case False
    with JStr assms show ?thesis
      by (cases route_arg) (auto simp: addRoute_def createRoute_def Let_def index_1_undefined)
  qed
qed (use assms in \<open>simp_all add: createRoute_def\<close>)

theorem createRoute_middlewares_witness:
  "map_sum id r_middlewares
     (createRoute utils_ref (KoaBetterRouter utils_ref None)
        (JStr ''post /users'') (JArr [JFun (Plain 7)]) (JFun (Gen 8)) [JFun (Plain 9)]) =
   Inr [JFun (Plain 7), JFun (Gen 8), JFun (Plain 9)]"
proof -
  obtain R where R: "createRoute utils_ref (KoaBetterRouter utils_ref None)
        (JStr ''post /users'') (JArr [JFun (Plain 7)]) (JFun (Gen 8)) [JFun (Plain 9)] = Inr R"
    by (simp add: createRoute_def index_def Let_def)
  have "r_middlewares R = [JFun (Plain 7), JFun (Gen 8), JFun (Plain 9)]"
    using createRoute_middlewares [OF R] by (simp add: utils_ref_def)
  then show ?thesis
    unfolding R by simp
qed

text \<open>
  C3, as the spec has it, fails: \<^verbatim>\<open>createRoute('GET', '/x', [])\<close> returns a route
  with no handler.
\<close>

theorem createRoute_no_handlers_counterexample:
  "map_sum id r_middlewares
     (createRoute utils_ref (KoaBetterRouter utils_ref None)
        (JStr ''GET'') (JStr ''/x'') (JArr []) []) =
   Inr []"
  by (simp add: createRoute_def utils_ref_def KoaBetterRouter_def index_def Let_def)

section \<open>Dispatch\<close>

lemma dispatch_from_skip:
  assumes "ctx_method ctx \<noteq> r_method r"
  shows "dispatch_from u this options' ctx next i (r # rs) =
           (dispatch_from u this options' ctx next (Suc i) rs)
             \<lparr> d_routes := r # d_routes (dispatch_from u this options' ctx next (Suc i) rs) \<rparr>"
  using assms by (simp add: Let_def)

lemma dispatch_from_miss:
  assumes "ctx_method ctx = r_method r"
    and "r_match (under_prefix u this (prefix options') r) (ctx_path ctx) (ctx_params ctx) = None"
  shows "dispatch_from u this options' ctx next i (r # rs) =
           (dispatch_from u this options' ctx next (Suc i) rs)
             \<lparr> d_routes := under_prefix u this (prefix options') r
                   # d_routes (dispatch_from u this options' ctx next (Suc i) rs) \<rparr>"
  using assms by (auto simp: Let_def under_prefix_def)

lemma dispatch_from_hit:
  assumes "ctx_method ctx = r_method r"
    and "r_match (under_prefix u this (prefix options') r) (ctx_path ctx) (ctx_params ctx) = Some m"
  shows "dispatch_from u this options' ctx next i (r # rs) =
           (let r2 = matched u (under_prefix u this (prefix options') r) m;
                ctx1 = ctx\<lparr> ctx_route := Some i, ctx_params := Some m \<rparr>
            in case compose u (r_middlewares r2) ctx1 of
                 (Fulfilled, ctx2) \<Rightarrow>
                   (let (out, ctx3) = next ctx2
                    in \<lparr> d_routes = r2 # rs, d_ctx = ctx3, d_outcome = out,
                         d_calls = [CallCompose i (r_middlewares r2) ctx1, CallNext ctx2] \<rparr>)
               | (Rejected e, ctx2) \<Rightarrow>
                   \<lparr> d_routes = r2 # rs, d_ctx = ctx2, d_outcome = Rejected e,
                     d_calls = [CallCompose i (r_middlewares r2) ctx1] \<rparr>
               | (Pending, ctx2) \<Rightarrow>
                   \<lparr> d_routes = r2 # rs, d_ctx = ctx2, d_outcome = Pending,
                     d_calls = [CallCompose i (r_middlewares r2) ctx1] \<rparr>)"
  using assms
  by (auto simp: Let_def under_prefix_def matched_def split: prod.splits outcome.splits)

lemma dispatch_from_cases:
  obtains (skip) "ctx_method ctx \<noteq> r_method r"
  | (miss) "ctx_method ctx = r_method r"
      "r_match (under_prefix u this (prefix options') r) (ctx_path ctx) (ctx_params ctx) = None"
      "\<not> accepts u this options' ctx r"
  | (hit) m where "ctx_method ctx = r_method r"
      "r_match (under_prefix u this (prefix options') r) (ctx_path ctx) (ctx_params ctx) = Some m"
      "accepts u this options' ctx r"
  by (cases "r_match (under_prefix u this (prefix options') r) (ctx_path ctx) (ctx_params ctx)")
     (auto simp: accepts_def)

declare dispatch_from.simps(2) [simp del]

lemma length_dispatch_from:
  "length (d_routes (dispatch_from u this options' ctx next i rs)) = length rs"
proof (induction rs arbitrary: i)
  case Nil
  show ?case by (simp split: prod.splits)
next
  case (Cons r rs)
  show ?case
  proof (cases rule: dispatch_from_cases
      [where ctx = ctx and r = r and u = u and this = this and options' = options'])
    case skip
    then show ?thesis by (simp add: dispatch_from_skip Cons.IH)
  next
    case miss
    then show ?thesis by (simp add: dispatch_from_miss Cons.IH)
  next
    case (hit m)
    then show ?thesis
      by (simp add: dispatch_from_hit Let_def split: prod.splits outcome.splits)
  qed
qed

lemma dispatch_from_no_match:
  assumes "\<forall>r \<in> set rs. \<not> accepts u this options' ctx r"
  shows "dispatch_from u this options' ctx next i rs =
           \<lparr> d_routes =
               map (\<lambda>r. if ctx_method ctx = r_method r
                        then under_prefix u this (prefix options') r else r) rs,
             d_ctx = snd (next ctx), d_outcome = fst (next ctx), d_calls = [CallNext ctx] \<rparr>"
  using assms
proof (induction rs arbitrary: i)
  case Nil
  show ?case by (simp split: prod.splits)
next
  case (Cons r rs)
  then have IH: "dispatch_from u this options' ctx next (Suc i) rs =
           \<lparr> d_routes =
               map (\<lambda>r. if ctx_method ctx = r_method r
                        then under_prefix u this (prefix options') r else r) rs,
             d_ctx = snd (next ctx), d_outcome = fst (next ctx), d_calls = [CallNext ctx] \<rparr>"
    by simp
  show ?case
  proof (cases rule: dispatch_from_cases
      [where ctx = ctx and r = r and u = u and this = this and options' = options'])
    case skip
    then show ?thesis by (simp add: dispatch_from_skip IH)
  next
    case miss
    then show ?thesis by (simp add: dispatch_from_miss IH)
  next
    case (hit m)
    with Cons.prems show ?thesis by simp
  qed
qed

lemma dispatch_from_first_match:
  assumes "\<forall>x \<in> set xs. \<not> accepts u this options' ctx x"
    and "ctx_method ctx = r_method r"
    and "r_match (under_prefix u this (prefix options') r) (ctx_path ctx) (ctx_params ctx) = Some m"
  shows "dispatch_from u this options' ctx next i (xs @ r # ys) =
           (let r2 = matched u (under_prefix u this (prefix options') r) m;
                ctx1 = ctx\<lparr> ctx_route := Some (i + length xs), ctx_params := Some m \<rparr>;
                rs2 = map (\<lambda>r. if ctx_method ctx = r_method r
                        then under_prefix u this (prefix options') r else r) xs @ r2 # ys
            in case compose u (r_middlewares r2) ctx1 of
                 (Fulfilled, ctx2) \<Rightarrow>
                   (let (out, ctx3) = next ctx2
                    in \<lparr> d_routes = rs2, d_ctx = ctx3, d_outcome = out,
                         d_calls = [CallCompose (i + length xs) (r_middlewares r2) ctx1,
                                    CallNext ctx2] \<rparr>)
               | (Rejected e, ctx2) \<Rightarrow>
                   \<lparr> d_routes = rs2, d_ctx = ctx2, d_outcome = Rejected e,
                     d_calls = [CallCompose (i + length xs) (r_middlewares r2) ctx1] \<rparr>
               | (Pending, ctx2) \<Rightarrow>
                   \<lparr> d_routes = rs2, d_ctx = ctx2, d_outcome = Pending,
                     d_calls = [CallCompose (i + length xs) (r_middlewares r2) ctx1] \<rparr>)"
  using assms(1)
proof (induction xs arbitrary: i)
  case Nil
  show ?case using assms(2,3)
    by (simp add: dispatch_from_hit Let_def split: prod.splits outcome.splits)
next
  case (Cons x xs)
  then have IH: "dispatch_from u this options' ctx next (Suc i) (xs @ r # ys) =
           (let r2 = matched u (under_prefix u this (prefix options') r) m;
                ctx1 = ctx\<lparr> ctx_route := Some (Suc i + length xs), ctx_params := Some m \<rparr>;
                rs2 = map (\<lambda>r. if ctx_method ctx = r_method r
                        then under_prefix u this (prefix options') r else r) xs @ r2 # ys
            in case compose u (r_middlewares r2) ctx1 of
                 (Fulfilled, ctx2) \<Rightarrow>
                   (let (out, ctx3) = next ctx2
                    in \<lparr> d_routes = rs2, d_ctx = ctx3, d_outcome = out,
                         d_calls = [CallCompose (Suc i + length xs) (r_middlewares r2) ctx1,
                                    CallNext ctx2] \<rparr>)
               | (Rejected e, ctx2) \<Rightarrow>
                   \<lparr> d_routes = rs2, d_ctx = ctx2, d_outcome = Rejected e,
                     d_calls = [CallCompose (Suc i + length xs) (r_middlewares r2) ctx1] \<rparr>
               | (Pending, ctx2) \<Rightarrow>
                   \<lparr> d_routes = rs2, d_ctx = ctx2, d_outcome = Pending,
                     d_calls = [CallCompose (Suc i + length xs) (r_middlewares r2) ctx1] \<rparr>)"
    by simp
  show ?case
  proof (cases rule: dispatch_from_cases
      [where ctx = ctx and r = x and u = u and this = this and options' = options'])
    case skip
    then show ?thesis
      by (simp add: dispatch_from_skip IH Let_def split: prod.splits outcome.splits)
  next
    case miss
    then show ?thesis
      by (simp add: dispatch_from_miss IH Let_def split: prod.splits outcome.splits)
  next
    case (hit m')
    with Cons.prems show ?thesis by simp
  qed
qed

lemma first_match_split:
  assumes "i < length rs" and "\<forall>j < i. \<not> P (rs ! j)"
  shows "rs = take i rs @ rs ! i # drop (Suc i) rs \<and> (\<forall>x \<in> set (take i rs). \<not> P x)
         \<and> length (take i rs) = i"
  using assms by (auto simp: id_take_nth_drop [symmetric] in_set_conv_nth)

lemma createPrefix_ref_examples:
  "createPrefix_ref ''/'' ''/users'' = ''/users''"
  "createPrefix_ref ''/'' ''/items'' = ''/items''"
  "createPrefix_ref ''/api'' ''/users'' = ''/api/users''"
  "createPrefix_ref ''/api'' ''/items'' = ''/api/items''"
  "createPrefix_ref ''/api'' ''/'' = ''/api/''"
  "createPrefix_ref ''/'' ''/'' = ''/''"
  "createPrefix_ref ''/api/'' ''/users/'' = ''/api/users''"
  "createPrefix_ref ''/a//b'' ''/x'' = ''/a/b/x''"
  by (simp_all add: createPrefix_ref_def drop_trailing_slash_def)

lemma example_router_built:
  "Inr example_router =
     (case addRoute utils_ref (KoaBetterRouter utils_ref None)
             (JStr ''GET /users'') (JFun (Plain 7)) JUndefined [] of
        Inl e \<Rightarrow> Inl e
      | Inr t1 \<Rightarrow>
          (case addRoute utils_ref t1 (JStr ''GET'') (JStr ''/users'') (JFun (Gen 8)) [] of
             Inl e \<Rightarrow> Inl e
           | Inr t2 \<Rightarrow>
               (case addRoute utils_ref t2 (JStr ''POST /users'') (JFun (Failing 9)) JUndefined [] of
                  Inl e \<Rightarrow> Inl e
                | Inr t3 \<Rightarrow>
                    addRoute utils_ref t3 (JStr ''get /items'') (JArr [JFun (Plain 10)])
                      JUndefined [])))"
  by (simp add: addRoute_def createRoute_def KoaBetterRouter_def utils_ref_def index_def
      Let_def toUpperCase_def upper_char_def example_router_def example_route_def
      example_options_def
      createPrefix_ref_examples)

text \<open>
  C1. Let the route at position \<open>i\<close> of the table be the first whose method is the
  request's and whose matcher (under the dispatcher's prefix) accepts the request's path, with
  parameters \<open>m\<close>. Then the dispatcher composes that route's handlers and runs them on the
  context with \<^verbatim>\<open>ctx.route\<close> referring to position \<open>i\<close> and \<^verbatim>\<open>ctx.params\<close> set to
  \<open>m\<close>; the record at position \<open>i\<close> is that route, now holding \<open>m\<close> and its converted
  handlers; routes after it are not looked at, whether they match or not.
\<close>

theorem dispatch_first_match:
  assumes "i < length (routes this)"
    and "\<forall>j < i. \<not> accepts u this options' ctx (routes this ! j)"
    and "ctx_method ctx = r_method (routes this ! i)"
    and "r_match (under_prefix u this (prefix options') (routes this ! i))
           (ctx_path ctx) (ctx_params ctx) = Some m"
  shows "take 1 (d_calls (dispatch u this options' ctx next)) =
           [CallCompose i
              (r_middlewares (matched u (under_prefix u this (prefix options') (routes this ! i)) m))
              (ctx\<lparr> ctx_route := Some i, ctx_params := Some m \<rparr>)]
         \<and> length (d_routes (dispatch u this options' ctx next)) = length (routes this)
         \<and> d_routes (dispatch u this options' ctx next) ! i =
             matched u (under_prefix u this (prefix options') (routes this ! i)) m
         \<and> drop (Suc i) (d_routes (dispatch u this options' ctx next)) =
             drop (Suc i) (routes this)"
proof -
  let ?rs = "routes this"
  from first_match_split [of i ?rs "accepts u this options' ctx", OF assms(1,2)]
  have split: "?rs = take i ?rs @ ?rs ! i # drop (Suc i) ?rs"
    and before: "\<forall>x \<in> set (take i ?rs). \<not> accepts u this options' ctx x"
    and len: "length (take i ?rs) = i"
    by simp_all
  have eq: "dispatch u this options' ctx next =
      dispatch_from u this options' ctx next 0 (take i ?rs @ ?rs ! i # drop (Suc i) ?rs)"
    unfolding dispatch_def using split by simp
  show ?thesis
    unfolding eq dispatch_from_first_match [OF before assms(3,4)]
    using len assms(1)
    by (auto simp: Let_def nth_append split: prod.splits outcome.splits)
qed

theorem dispatch_first_match_witness:
  "accepts utils_ref example_router \<lparr> prefix = ''/'', legacy = JBool False \<rparr>
     (example_ctx ''GET'' ''/users'') (routes example_router ! 1)
   \<and> take 1 (d_calls (dispatch utils_ref example_router
       \<lparr> prefix = ''/'', legacy = JBool False \<rparr> (example_ctx ''GET'' ''/users'') example_next)) =
     [CallCompose 0 [JFun (Plain 7)]
        \<lparr> ctx_method = ''GET'', ctx_path = ''/users'', ctx_params = Some Map.empty,
          ctx_route = Some 0 \<rparr>]
   \<and> take 1 (d_calls (dispatch utils_ref example_router
       \<lparr> prefix = ''/'', legacy = JBool False \<rparr> (example_ctx ''GET'' ''/items'') example_next)) =
     [CallCompose 3 [JFun (Plain 10)]
        \<lparr> ctx_method = ''GET'', ctx_path = ''/items'', ctx_params = Some Map.empty,
          ctx_route = Some 3 \<rparr>]
   \<and> r_params (d_routes (dispatch utils_ref example_router
       \<lparr> prefix = ''/'', legacy = JBool False \<rparr> (example_ctx ''GET'' ''/items'') example_next) ! 3) =
      Some Map.empty"
proof -
  let ?o = "\<lparr> prefix = ''/'', legacy = JBool False \<rparr> :: fn options"
  let ?c = "example_ctx ''GET'' ''/items''"
  have len: "3 < length (routes example_router)"
    by (simp add: example_router_def)
  have before: "\<forall>j < 3. \<not> accepts utils_ref example_router ?o ?c (routes example_router ! j)"
    by (simp add: accepts_def under_prefix_def example_router_def example_route_def
        example_ctx_def pathMatch_ref_def eval_nat_numeral less_Suc_eq)
  have meth: "ctx_method ?c = r_method (routes example_router ! 3)"
    by (simp add: example_router_def example_route_def example_ctx_def)
  have mat: "r_match (under_prefix utils_ref example_router (prefix ?o) (routes example_router ! 3))
           (ctx_path ?c) (ctx_params ?c) = Some Map.empty"
    by (simp add: under_prefix_def example_router_def example_route_def
        example_ctx_def pathMatch_ref_def)
  let ?d = "example_ctx ''GET'' ''/users''"
  have len0: "0 < length (routes example_router)"
    by (simp add: example_router_def)
  have before0: "\<forall>j < 0. \<not> accepts utils_ref example_router ?o ?d (routes example_router ! j)"
    by simp
  have meth0: "ctx_method ?d = r_method (routes example_router ! 0)"
    by (simp add: example_router_def example_route_def example_ctx_def)
  have mat0: "r_match (under_prefix utils_ref example_router (prefix ?o) (routes example_router ! 0))
           (ctx_path ?d) (ctx_params ?d) = Some Map.empty"
    by (simp add: under_prefix_def example_router_def example_route_def
        example_ctx_def pathMatch_ref_def)
  have later: "accepts utils_ref example_router ?o ?d (routes example_router ! 1)"
    by (simp add: accepts_def under_prefix_def example_router_def example_route_def
        example_ctx_def pathMatch_ref_def)
  show ?thesis
    using dispatch_first_match [OF len before meth mat, of example_next]
      dispatch_first_match [OF len0 before0 meth0 mat0, of example_next] later
    by (simp add: matched_def under_prefix_def example_router_def example_route_def
        example_ctx_def utils_ref_def)
qed

text \<open>
  C2. When no route of the table matches the request, the dispatcher makes one call,
  \<^verbatim>\<open>next()\<close>, with the context as it received it (\<^verbatim>\<open>ctx.route\<close> and
  \<^verbatim>\<open>ctx.params\<close> included), and returns what \<^verbatim>\<open>next\<close> returns.
\<close>

theorem dispatch_no_match:
  assumes "\<forall>r \<in> set (routes this). \<not> accepts u this options' ctx r"
  shows "d_calls (dispatch u this options' ctx next) = [CallNext ctx]
         \<and> d_outcome (dispatch u this options' ctx next) = fst (next ctx)
         \<and> d_ctx (dispatch u this options' ctx next) = snd (next ctx)"
  unfolding dispatch_def dispatch_from_no_match [OF assms] by simp

theorem dispatch_no_match_witness:
  "d_calls (dispatch utils_ref example_router \<lparr> prefix = ''/'', legacy = JBool False \<rparr>
      (example_ctx ''GET'' ''/nowhere'') example_next) =
     [CallNext \<lparr> ctx_method = ''GET'', ctx_path = ''/nowhere'', ctx_params = None,
                 ctx_route = None \<rparr>]
   \<and> d_ctx (dispatch utils_ref example_router \<lparr> prefix = ''/'', legacy = JBool False \<rparr>
      (example_ctx ''GET'' ''/nowhere'') example_next) =
     \<lparr> ctx_method = ''GET'', ctx_path = ''/nowhere'', ctx_params = None, ctx_route = None \<rparr>"
proof -
  have none: "\<forall>r \<in> set (routes example_router).
      \<not> accepts utils_ref example_router \<lparr> prefix = ''/'', legacy = JBool False \<rparr>
          (example_ctx ''GET'' ''/nowhere'') r"
    by (simp add: accepts_def under_prefix_def example_router_def example_route_def
        example_ctx_def pathMatch_ref_def)
  show ?thesis
    using dispatch_no_match [OF none, of example_next]
    by (simp add: example_ctx_def example_next_def)
qed

text \<open>
  C7. When the route at position \<open>i\<close> is the one matched, the dispatcher runs the
  composed chain once. If the chain is fulfilled, it then calls \<^verbatim>\<open>next()\<close> once, on
  the context the chain left, and returns what \<^verbatim>\<open>next\<close> returns. If the chain is
  rejected, the dispatcher's outcome is that rejection and \<^verbatim>\<open>next()\<close> is not called;
  nor is it called while the chain has not settled.
\<close>

theorem dispatch_next_after_chain:
  assumes "i < length (routes this)"
    and "\<forall>j < i. \<not> accepts u this options' ctx (routes this ! j)"
    and "ctx_method ctx = r_method (routes this ! i)"
    and "r_match (under_prefix u this (prefix options') (routes this ! i))
           (ctx_path ctx) (ctx_params ctx) = Some m"
  shows "(let mws = r_middlewares
                      (matched u (under_prefix u this (prefix options') (routes this ! i)) m);
              ctx1 = ctx\<lparr> ctx_route := Some i, ctx_params := Some m \<rparr>
          in case compose u mws ctx1 of
               (Fulfilled, ctx2) \<Rightarrow>
                 d_calls (dispatch u this options' ctx next) =
                   [CallCompose i mws ctx1, CallNext ctx2]
                 \<and> d_outcome (dispatch u this options' ctx next) = fst (next ctx2)
                 \<and> d_ctx (dispatch u this options' ctx next) = snd (next ctx2)
             | (Rejected e, ctx2) \<Rightarrow>
                 d_calls (dispatch u this options' ctx next) = [CallCompose i mws ctx1]
                 \<and> d_outcome (dispatch u this options' ctx next) = Rejected e
                 \<and> d_ctx (dispatch u this options' ctx next) = ctx2
             | (Pending, ctx2) \<Rightarrow>
                 d_calls (dispatch u this options' ctx next) = [CallCompose i mws ctx1]
                 \<and> d_outcome (dispatch u this options' ctx next) = Pending
                 \<and> d_ctx (dispatch u this options' ctx next) = ctx2)"
proof -
  let ?rs = "routes this"
  from first_match_split [of i ?rs "accepts u this options' ctx", OF assms(1,2)]
  have split: "?rs = take i ?rs @ ?rs ! i # drop (Suc i) ?rs"
    and before: "\<forall>x \<in> set (take i ?rs). \<not> accepts u this options' ctx x"
    and len: "length (take i ?rs) = i"
    by simp_all
  have eq: "dispatch u this options' ctx next =
      dispatch_from u this options' ctx next 0 (take i ?rs @ ?rs ! i # drop (Suc i) ?rs)"
    unfolding dispatch_def using split by simp
  show ?thesis
    unfolding eq dispatch_from_first_match [OF before assms(3,4)]
    using len
    by (auto simp: Let_def split: prod.splits outcome.splits)
qed

theorem dispatch_next_after_chain_witness:
  "d_calls (dispatch utils_ref example_router \<lparr> prefix = ''/'', legacy = JBool False \<rparr>
      (example_ctx ''POST'' ''/users'') example_next) =
     [CallCompose 2 [JFun (Failing 9)]
        \<lparr> ctx_method = ''POST'', ctx_path = ''/users'', ctx_params = Some Map.empty,
          ctx_route = Some 2 \<rparr>]
   \<and> d_outcome (dispatch utils_ref example_router \<lparr> prefix = ''/'', legacy = JBool False \<rparr>
      (example_ctx ''POST'' ''/users'') example_next) = Rejected 9
   \<and> d_calls (dispatch utils_ref example_router \<lparr> prefix = ''/'', legacy = JBool False \<rparr>
      (example_ctx ''GET'' ''/users'') example_next) =
     [CallCompose 0 [JFun (Plain 7)]
        \<lparr> ctx_method = ''GET'', ctx_path = ''/users'', ctx_params = Some Map.empty,
          ctx_route = Some 0 \<rparr>,
      CallNext
        \<lparr> ctx_method = ''GET'', ctx_path = ''/users'', ctx_params = Some Map.empty,
          ctx_route = Some 0 \<rparr>]
   \<and> d_outcome (dispatch utils_ref example_router \<lparr> prefix = ''/'', legacy = JBool False \<rparr>
      (example_ctx ''GET'' ''/users'') example_next) = Fulfilled"
proof -
  let ?o = "\<lparr> prefix = ''/'', legacy = JBool False \<rparr> :: fn options"
  let ?c = "example_ctx ''POST'' ''/users''"
  have len: "2 < length (routes example_router)"
    by (simp add: example_router_def)
  have before: "\<forall>j < 2. \<not> accepts utils_ref example_router ?o ?c (routes example_router ! j)"
    by (simp add: accepts_def under_prefix_def example_router_def example_route_def
        example_ctx_def pathMatch_ref_def eval_nat_numeral less_Suc_eq)
  have meth: "ctx_method ?c = r_method (routes example_router ! 2)"
    by (simp add: example_router_def example_route_def example_ctx_def)
  have mat: "r_match (under_prefix utils_ref example_router (prefix ?o) (routes example_router ! 2))
           (ctx_path ?c) (ctx_params ?c) = Some Map.empty"
    by (simp add: under_prefix_def example_router_def example_route_def
        example_ctx_def pathMatch_ref_def)
  let ?d = "example_ctx ''GET'' ''/users''"
  have len0: "0 < length (routes example_router)"
    by (simp add: example_router_def)
  have before0: "\<forall>j < 0. \<not> accepts utils_ref example_router ?o ?d (routes example_router ! j)"
    by simp
  have meth0: "ctx_method ?d = r_method (routes example_router ! 0)"
    by (simp add: example_router_def example_route_def example_ctx_def)
  have mat0: "r_match (under_prefix utils_ref example_router (prefix ?o) (routes example_router ! 0))
           (ctx_path ?d) (ctx_params ?d) = Some Map.empty"
    by (simp add: under_prefix_def example_router_def example_route_def
        example_ctx_def pathMatch_ref_def)
  show ?thesis
    using dispatch_next_after_chain [OF len before meth mat, of example_next]
      dispatch_next_after_chain [OF len0 before0 meth0 mat0, of example_next]
    by (simp add: matched_def under_prefix_def example_router_def example_route_def
        example_ctx_def example_next_def utils_ref_def Let_def)
qed

section \<open>Prefix rewriting\<close>

lemma dispatch_from_nth:
  assumes "j < length rs"
  shows "d_routes (dispatch_from u this options' ctx next i rs) ! j = rs ! j
         \<or> ctx_method ctx = r_method (rs ! j)
           \<and> (d_routes (dispatch_from u this options' ctx next i rs) ! j =
                 under_prefix u this (prefix options') (rs ! j)
              \<or> (\<exists>m. d_routes (dispatch_from u this options' ctx next i rs) ! j =
                     matched u (under_prefix u this (prefix options') (rs ! j)) m))"
  using assms
proof (induction rs arbitrary: i j)
  case Nil
  then show ?case by simp
next
  case (Cons r rs)
  show ?case
  proof (cases rule: dispatch_from_cases
      [where ctx = ctx and r = r and u = u and this = this and options' = options'])
    case skip
    with Cons show ?thesis
      by (cases j) (simp_all add: dispatch_from_skip)
  next
    case miss
    with Cons show ?thesis
      by (cases j) (simp_all add: dispatch_from_miss)
  next
    case (hit m)
    then show ?thesis
      by (cases j) (auto simp: dispatch_from_hit Let_def split: prod.splits outcome.splits)
  qed
qed

lemma dispatch_from_other_method:
  assumes "j < length rs" and "ctx_method ctx \<noteq> r_method (rs ! j)"
  shows "d_routes (dispatch_from u this options' ctx next i rs) ! j = rs ! j"
  using dispatch_from_nth [OF assms(1), of u this options' ctx "next" i] assms(2) by auto

lemma dispatch_from_considered:
  assumes "j < length rs"
    and "\<forall>k < j. \<not> accepts u this options' ctx (rs ! k)"
    and "ctx_method ctx = r_method (rs ! j)"
  shows "d_routes (dispatch_from u this options' ctx next i rs) ! j =
           under_prefix u this (prefix options') (rs ! j)
         \<or> (\<exists>m. d_routes (dispatch_from u this options' ctx next i rs) ! j =
                matched u (under_prefix u this (prefix options') (rs ! j)) m)"
  using assms
proof (induction rs arbitrary: i j)
  case Nil
  then show ?case by simp
next
  case (Cons r rs)
  show ?case
  proof (cases j)
    case 0
    show ?thesis
    proof (cases rule: dispatch_from_cases
        [where ctx = ctx and r = r and u = u and this = this and options' = options'])
      case skip
      with Cons.prems 0 show ?thesis by simp
    next
      case miss
      with 0 show ?thesis by (simp add: dispatch_from_miss)
    next
      case (hit m)
      with 0 show ?thesis
        by (auto simp: dispatch_from_hit Let_def split: prod.splits outcome.splits)
    qed
  next
    case (Suc j')
    with Cons.prems have j': "j' < length rs"
      and before: "\<forall>k < j'. \<not> accepts u this options' ctx (rs ! k)"
      and meth: "ctx_method ctx = r_method (rs ! j')"
      and first: "\<not> accepts u this options' ctx r"
      by auto
    note IH = Cons.IH [OF j' before meth, of "Suc i"]
    show ?thesis
    proof (cases rule: dispatch_from_cases
        [where ctx = ctx and r = r and u = u and this = this and options' = options'])
      case skip
      with IH Suc show ?thesis by (simp add: dispatch_from_skip)
    next
      case miss
      with IH Suc show ?thesis by (simp add: dispatch_from_miss)
    next
      case (hit m)
      with first show ?thesis by simp
    qed
  qed
qed

lemma length_dispatch:
  "length (d_routes (dispatch u this options' ctx next)) = length (routes this)"
  by (simp add: dispatch_def length_dispatch_from)

lemma dispatch_keeps:
  assumes "j < length (routes this)" and "r_prefix (routes this ! j) = prefix options'"
  shows "r_prefix (d_routes (dispatch u this options' ctx next) ! j) = prefix options'
         \<and> r_path (d_routes (dispatch u this options' ctx next) ! j) = r_path (routes this ! j)
         \<and> r_match (d_routes (dispatch u this options' ctx next) ! j) = r_match (routes this ! j)
         \<and> r_pathname (d_routes (dispatch u this options' ctx next) ! j) =
             r_pathname (routes this ! j)"
  using dispatch_from_nth [OF assms(1), of u this options' ctx "next" 0] assms(2)
  by (auto simp: dispatch_def under_prefix_def matched_def)

lemma dispatches_keep:
  assumes "\<forall>q \<in> set reqs. prefix (fst q) = p"
    and "j < length (routes this)" and "r_prefix (routes this ! j) = p"
  shows "length (routes (dispatches u this reqs)) = length (routes this)
         \<and> r_prefix (routes (dispatches u this reqs) ! j) = p
         \<and> r_path (routes (dispatches u this reqs) ! j) = r_path (routes this ! j)
         \<and> r_match (routes (dispatches u this reqs) ! j) = r_match (routes this ! j)
         \<and> r_pathname (routes (dispatches u this reqs) ! j) = r_pathname (routes this ! j)"
  using assms
proof (induction reqs arbitrary: this)
  case Nil
  then show ?case by simp
next
  case (Cons q reqs)
  obtain options' ctx "next" where q: "q = (options', ctx, next)"
    by (cases q) auto
  with Cons.prems have p: "prefix options' = p" by simp
  let ?this1 = "this\<lparr> routes := d_routes (dispatch u this options' ctx next) \<rparr>"
  from dispatch_keeps [of j this options' u ctx "next"] Cons.prems p
  have keep1: "r_prefix (routes ?this1 ! j) = p"
    "r_path (routes ?this1 ! j) = r_path (routes this ! j)"
    "r_match (routes ?this1 ! j) = r_match (routes this ! j)"
    "r_pathname (routes ?this1 ! j) = r_pathname (routes this ! j)"
    by simp_all
  have len1: "length (routes ?this1) = length (routes this)"
    by (simp add: length_dispatch)
  from Cons.prems have rest: "\<forall>q \<in> set reqs. prefix (fst q) = p" by simp
  from Cons.IH [of ?this1, OF rest] Cons.prems(2) len1 keep1
  show ?case by (simp add: q)
qed

text \<open>
  C6. Take a dispatch under the prefix \<open>p\<close> and a route it considers: the route's method
  is the request's and no earlier route matched. After the dispatch the route is stored
  under \<open>p\<close>; if it was stored under another prefix, its full path and its matcher are
  the ones computed from \<open>p\<close> and the route's original pattern, which stays. Any number
  of later dispatches under the same prefix \<open>p\<close> leave prefix, path and matcher as they
  are.
\<close>

theorem prefix_rewrite_persists:
  assumes "j < length (routes this)"
    and "ctx_method ctx = r_method (routes this ! j)"
    and "\<forall>k < j. \<not> accepts u this options' ctx (routes this ! k)"
    and "\<forall>q \<in> set reqs. prefix (fst q) = prefix options'"
  shows "(let r = routes this ! j;
              p = prefix options';
              r' = routes (dispatches u this ((options', ctx, next) # reqs)) ! j
          in r_prefix r' = p
             \<and> r_pathname r' = r_pathname r
             \<and> (r_prefix r \<noteq> p \<longrightarrow>
                  r_path r' = createPrefix u p (r_pathname r)
                  \<and> r_match r' = route this (createPrefix u p (r_pathname r)))
             \<and> (r_prefix r = p \<longrightarrow> r_path r' = r_path r \<and> r_match r' = r_match r))"
proof -
  let ?d = "dispatch u this options' ctx next"
  let ?this1 = "this\<lparr> routes := d_routes ?d \<rparr>"
  let ?r = "routes this ! j"
  from dispatch_from_considered [OF assms(1,3,2), of "next" 0]
  have first: "r_prefix (d_routes ?d ! j) = prefix options'
      \<and> r_pathname (d_routes ?d ! j) = r_pathname ?r
      \<and> r_path (d_routes ?d ! j) = r_path (under_prefix u this (prefix options') ?r)
      \<and> r_match (d_routes ?d ! j) = r_match (under_prefix u this (prefix options') ?r)"
    by (auto simp: dispatch_def under_prefix_def matched_def)
  have len1: "j < length (routes ?this1)"
    using assms(1) by (simp add: length_dispatch)
  from first have pre1: "r_prefix (routes ?this1 ! j) = prefix options'" by simp
  from dispatches_keep [OF assms(4) len1 pre1, of u] first
  have "r_prefix (routes (dispatches u ?this1 reqs) ! j) = prefix options'
      \<and> r_pathname (routes (dispatches u ?this1 reqs) ! j) = r_pathname ?r
      \<and> r_path (routes (dispatches u ?this1 reqs) ! j) =
          r_path (under_prefix u this (prefix options') ?r)
      \<and> r_match (routes (dispatches u ?this1 reqs) ! j) =
          r_match (under_prefix u this (prefix options') ?r)"
    by simp
  then show ?thesis
    by (simp add: Let_def under_prefix_def)
qed

theorem prefix_rewrite_persists_witness:
  "r_prefix (routes (dispatches utils_ref example_router
       [(example_api, example_ctx ''GET'' ''/api/items'', example_next),
        (example_api, example_ctx ''GET'' ''/api/users'', example_next)]) ! 3) = ''/api''
   \<and> r_path (routes (dispatches utils_ref example_router
       [(example_api, example_ctx ''GET'' ''/api/items'', example_next),
        (example_api, example_ctx ''GET'' ''/api/users'', example_next)]) ! 3) = ''/api/items''
   \<and> r_pathname (routes (dispatches utils_ref example_router
       [(example_api, example_ctx ''GET'' ''/api/items'', example_next),
        (example_api, example_ctx ''GET'' ''/api/users'', example_next)]) ! 3) = ''/items''"
proof -
  let ?c = "example_ctx ''GET'' ''/api/items''"
  let ?reqs = "[(example_api, example_ctx ''GET'' ''/api/users'', example_next)]"
  have len: "3 < length (routes example_router)"
    by (simp add: example_router_def)
  have meth: "ctx_method ?c = r_method (routes example_router ! 3)"
    by (simp add: example_router_def example_route_def example_ctx_def)
  have before:
    "\<forall>k < 3. \<not> accepts utils_ref example_router example_api ?c (routes example_router ! k)"
    by (simp add: accepts_def under_prefix_def example_router_def example_route_def
        example_ctx_def example_api_def example_options_def pathMatch_ref_def utils_ref_def
        createPrefix_ref_examples eval_nat_numeral less_Suc_eq)
  have same: "\<forall>q \<in> set ?reqs. prefix (fst q) = prefix example_api"
    by simp
  show ?thesis
    using prefix_rewrite_persists [OF len meth before same, of example_next]
    by (simp add: Let_def example_router_def example_route_def example_api_def
        utils_ref_def createPrefix_ref_examples)
qed


text \<open>
  C10. A route whose method is not the method of any request in a sequence of dispatches
  is the same record after the sequence as before it, stored prefix, path and matcher
  included, whatever the prefixes of the dispatchers were.
\<close>

theorem dispatches_other_methods:
  assumes "j < length (routes this)"
    and "\<forall>q \<in> set reqs. ctx_method (fst (snd q)) \<noteq> r_method (routes this ! j)"
  shows "routes (dispatches u this reqs) ! j = routes this ! j"
  using assms
proof (induction reqs arbitrary: this)
  case Nil
  then show ?case by simp
next
  case (Cons q reqs)
  obtain options' ctx "next" where q: "q = (options', ctx, next)"
    by (cases q) auto
  let ?this1 = "this\<lparr> routes := d_routes (dispatch u this options' ctx next) \<rparr>"
  from Cons.prems q have other: "ctx_method ctx \<noteq> r_method (routes this ! j)" by simp
  have same: "routes ?this1 ! j = routes this ! j"
    using dispatch_from_other_method [OF Cons.prems(1) other] by (simp add: dispatch_def)
  have len1: "j < length (routes ?this1)"
    using Cons.prems(1) by (simp add: length_dispatch)
  from Cons.prems same have rest:
    "\<forall>q \<in> set reqs. ctx_method (fst (snd q)) \<noteq> r_method (routes ?this1 ! j)"
    by simp
  from Cons.IH [OF len1 rest] same show ?case by (simp add: q)
qed

theorem dispatches_other_methods_witness:
  "routes (dispatches utils_ref example_router
       [(example_api, example_ctx ''GET'' ''/api/users'', example_next),
        (example_api, example_ctx ''GET'' ''/api/items'', example_next)]) ! 2 =
     example_route ''POST'' ''/users'' [JFun (Failing 9)]
   \<and> map r_prefix (routes (dispatches utils_ref example_router
       [(example_api, example_ctx ''GET'' ''/api/users'', example_next),
        (example_api, example_ctx ''GET'' ''/api/items'', example_next)])) =
     [''/api'', ''/api'', ''/'', ''/api'']"
proof -
  let ?reqs = "[(example_api, example_ctx ''GET'' ''/api/users'', example_next),
        (example_api, example_ctx ''GET'' ''/api/items'', example_next)]"
  have len: "2 < length (routes example_router)"
    by (simp add: example_router_def)
  have other: "\<forall>q \<in> set ?reqs. ctx_method (fst (snd q)) \<noteq> r_method (routes example_router ! 2)"
    by (simp add: example_router_def example_route_def example_ctx_def)
  have prefixes: "map r_prefix (routes (dispatches utils_ref example_router ?reqs)) =
     [''/api'', ''/api'', ''/'', ''/api'']"
    by (simp add: dispatch_def dispatch_from.simps Let_def example_router_def example_route_def
        example_ctx_def example_api_def example_next_def example_options_def pathMatch_ref_def
        utils_ref_def createPrefix_ref_examples)
  show ?thesis
    using dispatches_other_methods [OF len other, of utils_ref] prefixes
    by (simp add: example_router_def)
qed

section \<open>The legacy entry point\<close>

lemma legacyMiddleware_value:
  "legacyMiddleware this =
     (this\<lparr> options := \<lparr> prefix = prefix (options this), legacy = JBool False \<rparr> \<rparr>,
      ConvertBack (Dispatcher \<lparr> prefix = prefix (options this), legacy = JBool False \<rparr>))"
proof -
  have "extend_options (options this) (normalize_opts (Value JUndefined)) =
      \<lparr> prefix = prefix (options this), legacy = JBool False \<rparr>"
    by (simp add: extend_options_def normalize_opts_def)
  then show ?thesis
    by (simp add: Let_def)
qed

text \<open>
  C8. When the merged configuration of a call \<^verbatim>\<open>middleware(opts)\<close> has a true
  \<^verbatim>\<open>legacy\<close>, the call returns what \<^verbatim>\<open>legacyMiddleware()\<close> returns on the router with
  that configuration. The call \<^verbatim>\<open>this.middleware()\<close> inside \<^verbatim>\<open>legacyMiddleware\<close>
  merges a false \<^verbatim>\<open>legacy\<close>, on any router, and so returns the dispatcher:
  the result is the dispatcher for the merged prefix, wrapped once by
  \<^verbatim>\<open>utils.convert.back\<close>, and the router is left with \<^verbatim>\<open>legacy\<close> false.
\<close>

theorem middleware_legacy:
  assumes "truthy (legacy (extend_options (options this) (normalize_opts arg)))"
  shows "(let merged = extend_options (options this) (normalize_opts arg);
              this1 = this\<lparr> options := merged \<rparr>;
              final = \<lparr> prefix = prefix merged, legacy = JBool False \<rparr>
          in middleware this arg = legacyMiddleware this1
             \<and> extend_options (options this1) (normalize_opts (Value JUndefined)) = final
             \<and> middleware this1 (Value JUndefined) =
                 (this\<lparr> options := final \<rparr>, Dispatcher final)
             \<and> middleware this arg = (this\<lparr> options := final \<rparr>, ConvertBack (Dispatcher final)))"
proof -
  let ?merged = "extend_options (options this) (normalize_opts arg)"
  let ?this1 = "this\<lparr> options := ?merged \<rparr>"
  let ?final = "\<lparr> prefix = prefix ?merged, legacy = JBool False \<rparr> :: 'a options"
  have undef: "extend_options (options ?this1) (normalize_opts (Value JUndefined)) = ?final"
    by (simp add: extend_options_def normalize_opts_def)
  have step: "middleware this arg = legacyMiddleware ?this1"
    using assms by (simp add: Let_def del: legacyMiddleware.simps)
  have inner: "middleware ?this1 (Value JUndefined) = (this\<lparr> options := ?final \<rparr>, Dispatcher ?final)"
    using undef by (simp add: Let_def del: legacyMiddleware.simps)
  have outer: "legacyMiddleware ?this1 = (this\<lparr> options := ?final \<rparr>, ConvertBack (Dispatcher ?final))"
    using inner by (simp del: middleware.simps)
  show ?thesis
    using step inner undef outer
    by (simp add: Let_def del: middleware.simps legacyMiddleware.simps)
qed

theorem middleware_legacy_witness:
  "middleware example_router (Value (JBool True)) =
     (example_router\<lparr> options := \<lparr> prefix = ''/'', legacy = JBool False \<rparr> \<rparr>,
      ConvertBack (Dispatcher \<lparr> prefix = ''/'', legacy = JBool False \<rparr>))
   \<and> middleware example_router
       (Object \<lparr> o_prefix = Some ''/foo'', o_legacy = Some (JBool True) \<rparr>) =
     (example_router\<lparr> options := \<lparr> prefix = ''/foo'', legacy = JBool False \<rparr> \<rparr>,
      ConvertBack (Dispatcher \<lparr> prefix = ''/foo'', legacy = JBool False \<rparr>))"
proof -
  have a: "truthy (legacy (extend_options (options example_router)
      (normalize_opts (Value (JBool True :: fn jsval)))))"
    by (simp add: extend_options_def normalize_opts_def)
  have b: "truthy (legacy (extend_options (options example_router)
      (normalize_opts (Object \<lparr> o_prefix = Some ''/foo'', o_legacy = Some (JBool True :: fn jsval) \<rparr>))))"
    by (simp add: extend_options_def normalize_opts_def extend_opts_def)
  note A = middleware_legacy [OF a, unfolded Let_def, THEN conjunct2, THEN conjunct2, THEN conjunct2]
  note B = middleware_legacy [OF b, unfolded Let_def, THEN conjunct2, THEN conjunct2, THEN conjunct2]
  show ?thesis
    using A B
    by (simp add: extend_options_def normalize_opts_def extend_opts_def example_router_def
        example_options_def del: middleware.simps legacyMiddleware.simps)
qed

section \<open>Verb methods\<close>

lemma upper_char_idem: "upper_char (upper_char c) = upper_char c"
  by (auto simp: upper_char_def)

lemma toUpperCase_idem: "toUpperCase (toUpperCase s) = toUpperCase s"
  by (simp add: toUpperCase_def upper_char_idem)

lemma upper_char_not_d: "upper_char c \<noteq> CHR ''d''"
  by (auto simp: upper_char_def)

lemma toUpperCase_not_del: "toUpperCase s \<noteq> ''del''"
proof (cases s)
  case Nil
  then show ?thesis by (simp add: toUpperCase_def)
next
  case (Cons c cs)
  then show ?thesis by (simp add: toUpperCase_def upper_char_not_d)
qed

lemma install_verb_self:
  "install_verb a p a = Some (HttpVerbMethod (toUpperCase a))"
  "install_verb a p (toUpperCase a) = Some (HttpVerbMethod (toUpperCase a))"
  by (simp_all add: install_verb_def Let_def)

lemma install_verb_keeps:
  assumes "p m = Some (HttpVerbMethod (toUpperCase m))"
    and "p (toUpperCase m) = Some (HttpVerbMethod (toUpperCase m))"
  shows "install_verb a p m = Some (HttpVerbMethod (toUpperCase m))"
    and "install_verb a p (toUpperCase m) = Some (HttpVerbMethod (toUpperCase m))"
  using assms toUpperCase_idem [of a] toUpperCase_idem [of m]
  by (auto simp: install_verb_def Let_def)

lemma fold_install_verb_keeps:
  assumes "p m = Some (HttpVerbMethod (toUpperCase m))"
    and "p (toUpperCase m) = Some (HttpVerbMethod (toUpperCase m))"
  shows "fold install_verb ms p m = Some (HttpVerbMethod (toUpperCase m))
         \<and> fold install_verb ms p (toUpperCase m) = Some (HttpVerbMethod (toUpperCase m))"
  using assms
proof (induction ms arbitrary: p)
  case Nil
  then show ?case by simp
next
  case (Cons a ms)
  from Cons.IH [OF install_verb_keeps [OF Cons.prems, of a]] show ?case
    by simp
qed

lemma fold_install_verb:
  assumes "m \<in> set ms"
  shows "fold install_verb ms p m = Some (HttpVerbMethod (toUpperCase m))
         \<and> fold install_verb ms p (toUpperCase m) = Some (HttpVerbMethod (toUpperCase m))"
  using assms
proof (induction ms arbitrary: p)
  case Nil
  then show ?case by simp
next
  case (Cons a ms)
  show ?case
  proof (cases "m = a")
    case True
    from fold_install_verb_keeps [OF install_verb_self [of a p], of ms] True
    show ?thesis by simp
  next
    case False
    with Cons show ?thesis by simp
  qed
qed

lemma httpVerbMethod_example:
  "httpVerbMethod utils_ref (KoaBetterRouter utils_ref None) ''GET''
     [JStr ''/users'', JFun (Plain 7)] =
   Inr (example_router\<lparr> routes := [example_route ''GET'' ''/users'' [JFun (Plain 7)]] \<rparr>)"
  by (simp add: httpVerbMethod_def argument_def addRoute_def createRoute_def KoaBetterRouter_def
      utils_ref_def index_def Let_def toUpperCase_def upper_char_def example_router_def
      example_route_def example_options_def createPrefix_ref_examples)

text \<open>
  What \<^verbatim>\<open>loadMethods()\<close> does, on any instance and for any verb list. The shared
  prototype then holds, for every verb of \<^verbatim>\<open>utils.methods\<close>, the verb method under the
  verb's name and under its upper-case name, and under \<^verbatim>\<open>del\<close> what it holds under
  \<^verbatim>\<open>delete\<close>. The call returns the instance it was made on and leaves all instances as
  they were, their route tables included. Every instance, the ones made afterwards too,
  reads from that one prototype any name that is not one of its own properties; a name
  that is one of its own properties is no method of any instance.
\<close>

lemma loadMethods_prototype:
  "(let w1 = fst (loadMethods u w this);
        w2 = fst (new_KoaBetterRouter u w1 opts);
        fresh = snd (new_KoaBetterRouter u w1 opts)
    in snd (loadMethods u w this) = this
       \<and> instances w1 = instances w
       \<and> (\<forall>m \<in> set (methods u).
             (m \<noteq> ''del'' \<longrightarrow> prototype w1 m = Some (HttpVerbMethod (toUpperCase m)))
             \<and> prototype w1 (toUpperCase m) = Some (HttpVerbMethod (toUpperCase m)))
       \<and> prototype w1 ''del'' = prototype w1 ''delete''
       \<and> (\<forall>i name. i < length (instances w) \<and> \<not> own_property name \<longrightarrow>
             get_method w1 i name = prototype w1 name)
       \<and> (\<forall>i name. own_property name \<longrightarrow> get_method w1 i name = None)
       \<and> fresh = length (instances w)
       \<and> prototype w2 = prototype w1
       \<and> (\<forall>i < length (instances w). instances w2 ! i = instances w ! i)
       \<and> (\<forall>name. \<not> own_property name \<longrightarrow> get_method w2 fresh name = prototype w1 name)
       \<and> (\<forall>name. own_property name \<longrightarrow> get_method w2 fresh name = None))"
proof -
  let ?p1 = "fold install_verb (methods u) (prototype w)"
  have verbs: "(m \<noteq> ''del'' \<longrightarrow> (?p1(''del'' := ?p1 ''delete'')) m = Some (HttpVerbMethod (toUpperCase m)))
      \<and> (?p1(''del'' := ?p1 ''delete'')) (toUpperCase m) = Some (HttpVerbMethod (toUpperCase m))"
    if "m \<in> set (methods u)" for m
    using fold_install_verb [OF that, of "prototype w"] toUpperCase_not_del [of m]
    by simp
  show ?thesis
    using verbs
    by (simp add: loadMethods_def new_KoaBetterRouter_def get_method_def Let_def nth_append)
qed

text \<open>
  C9. The verb list holds \<^verbatim>\<open>options\<close>, and the constructor gives every instance an own
  property of that name (\<^verbatim>\<open>this.options\<close>, line 54). After \<^verbatim>\<open>loadMethods()\<close> on the
  first of two instances the prototype holds the verb method under \<^verbatim>\<open>options\<close> and
  under \<^verbatim>\<open>OPTIONS\<close>, and the two instances are as they were. The second instance, on
  which \<^verbatim>\<open>loadMethods\<close> was not called, has the methods \<^verbatim>\<open>get\<close>, \<^verbatim>\<open>POST\<close>,
  \<^verbatim>\<open>del\<close> and \<^verbatim>\<open>OPTIONS\<close>, and so has an instance made afterwards. But no instance
  has the lower-case method \<^verbatim>\<open>options\<close>: the own property hides it, on the instance
  the call was made on, on the other one and on the one made afterwards, against the
  comment of lines 60 to 63, by which loading gives a method for each item of the verb
  list.
\<close>

theorem loadMethods_options_hidden:
  "''options'' \<in> set (methods utils_ref)
   \<and> own_property ''options''
   \<and> prototype (fst (loadMethods utils_ref example_store 0)) ''options'' =
       Some (HttpVerbMethod ''OPTIONS'')
   \<and> prototype (fst (loadMethods utils_ref example_store 0)) ''OPTIONS'' =
       Some (HttpVerbMethod ''OPTIONS'')
   \<and> get_method (fst (loadMethods utils_ref example_store 0)) 0 ''options'' = None
   \<and> get_method (fst (loadMethods utils_ref example_store 0)) 1 ''options'' = None
   \<and> get_method
       (fst (new_KoaBetterRouter utils_ref (fst (loadMethods utils_ref example_store 0)) None))
       2 ''options'' = None
   \<and> get_method (fst (loadMethods utils_ref example_store 0)) 1 ''OPTIONS'' =
       Some (HttpVerbMethod ''OPTIONS'')
   \<and> get_method (fst (loadMethods utils_ref example_store 0)) 1 ''get'' =
       Some (HttpVerbMethod ''GET'')
   \<and> get_method (fst (loadMethods utils_ref example_store 0)) 1 ''POST'' =
       Some (HttpVerbMethod ''POST'')
   \<and> get_method (fst (loadMethods utils_ref example_store 0)) 1 ''del'' =
       Some (HttpVerbMethod ''DELETE'')
   \<and> get_method
       (fst (new_KoaBetterRouter utils_ref (fst (loadMethods utils_ref example_store 0)) None))
       2 ''patch'' =
       Some (HttpVerbMethod ''PATCH'')
   \<and> instances (fst (loadMethods utils_ref example_store 0)) =
       [example_router, KoaBetterRouter utils_ref None]"
proof -
  note T = loadMethods_prototype [of utils_ref example_store 0 None, unfolded Let_def]
  have verbs: "methods utils_ref = [''get'', ''post'', ''put'', ''head'', ''delete'', ''options'', ''patch'']"
    by (simp add: utils_ref_def)
  have own: "\<not> own_property ''get''" "\<not> own_property ''POST''" "\<not> own_property ''del''"
    "own_property ''options''" "\<not> own_property ''OPTIONS''" "\<not> own_property ''patch''"
    "\<not> own_property ''delete''"
    by (simp_all add: own_property_def)
  have len: "length (instances example_store) = 2"
    by (simp add: example_store_def)
  have up: "toUpperCase ''get'' = ''GET''" "toUpperCase ''post'' = ''POST''"
    "toUpperCase ''delete'' = ''DELETE''" "toUpperCase ''options'' = ''OPTIONS''"
    "toUpperCase ''patch'' = ''PATCH''"
    by (simp_all add: toUpperCase_def upper_char_def)
  from T have inst: "instances (fst (loadMethods utils_ref example_store 0)) = instances example_store"
    by simp
  from T verbs up have proto:
    "prototype (fst (loadMethods utils_ref example_store 0)) ''get'' = Some (HttpVerbMethod ''GET'')"
    "prototype (fst (loadMethods utils_ref example_store 0)) ''POST'' = Some (HttpVerbMethod ''POST'')"
    "prototype (fst (loadMethods utils_ref example_store 0)) ''delete'' = Some (HttpVerbMethod ''DELETE'')"
    "prototype (fst (loadMethods utils_ref example_store 0)) ''options'' = Some (HttpVerbMethod ''OPTIONS'')"
    "prototype (fst (loadMethods utils_ref example_store 0)) ''OPTIONS'' = Some (HttpVerbMethod ''OPTIONS'')"
    "prototype (fst (loadMethods utils_ref example_store 0)) ''patch'' = Some (HttpVerbMethod ''PATCH'')"
    "prototype (fst (loadMethods utils_ref example_store 0)) ''del'' =
       prototype (fst (loadMethods utils_ref example_store 0)) ''delete''"
    by simp_all
  from T own len have fresh:
    "get_method
       (fst (new_KoaBetterRouter utils_ref (fst (loadMethods utils_ref example_store 0)) None))
       2 ''patch'' = prototype (fst (loadMethods utils_ref example_store 0)) ''patch''"
    "get_method
       (fst (new_KoaBetterRouter utils_ref (fst (loadMethods utils_ref example_store 0)) None))
       2 ''options'' = None"
    by (elim conjE, simp)+
  show ?thesis
    using inst proto own len fresh verbs
    by (simp add: get_method_def example_store_def)
qed

end
